theory Spec2Isabelle
  imports Complex_Main
begin

section \<open>The recommendation engine: \<open>get_recommendations\<close> of src/api/app.py\<close>

text \<open>
  A rule of the model is a triple \<open>(antecedent, consequent, confidence)\<close>. The source
  accepts an antecedent or consequent that is a Python set or a single bare item
  (lines 96-99 wrap a bare item into a one-element set). A Python set is given by its
  elements in the order in which a \<open>for\<close> loop over it yields them; that order is
  fixed by the interpreter, not by the program, so it is part of the input here.
  Confidences are floats; they are modelled as reals, ordered as floats other than NaN are.
\<close>

datatype 'a itemset = Item 'a | Items "'a list"

type_synonym 'a rule = "'a itemset \<times> 'a itemset \<times> real"

text \<open>Lines 96-99: \<open>if not isinstance(x, set): x = {x}\<close>.\<close>

fun as_set :: "'a itemset \<Rightarrow> 'a list" where
  "as_set (Item x) = [x]"
| "as_set (Items xs) = xs"

text \<open>
  The dict \<open>recommendations\<close> (song to confidence) of line 87. A Python dict keeps its
  keys in the order of their first insertion, and assigning to a key that is present
  replaces the value where it stands; \<open>sorted\<close> later reads \<open>items()\<close> in that order,
  so the dict is an association list with \<open>dict_set\<close> as its assignment.
\<close>

type_synonym 'a recs = "('a \<times> real) list"

fun dict_set :: "'a \<Rightarrow> real \<Rightarrow> 'a recs \<Rightarrow> 'a recs" where
  "dict_set k v [] = [(k, v)]"
| "dict_set k v ((k', v') # kvs) =
     (if k = k' then (k, v) # kvs else (k', v') # dict_set k v kvs)"

text \<open>Lines 105-108, the body of the inner loop for one \<open>song\<close> of the consequent.\<close>

definition consider_song :: "'a set \<Rightarrow> real \<Rightarrow> 'a \<Rightarrow> 'a recs \<Rightarrow> 'a recs" where
  "consider_song input_set confidence song recommendations =
     (if song \<notin> input_set then
        (case map_of recommendations song of
           None \<Rightarrow> dict_set song confidence recommendations
         | Some held \<Rightarrow>
             if confidence > held then dict_set song confidence recommendations
             else recommendations)
      else recommendations)"

text \<open>Lines 91-108, the body of the outer loop for one rule.\<close>

fun process_rule :: "'a set \<Rightarrow> 'a rule \<Rightarrow> 'a recs \<Rightarrow> 'a recs" where
  "process_rule input_set (antecedent, consequent, confidence) recommendations =
     (if set (as_set antecedent) \<subseteq> input_set
      then fold (consider_song input_set confidence) (as_set consequent) recommendations
      else recommendations)"

text \<open>The dict \<open>recommendations\<close> when the loop of lines 90-108 has ended.\<close>

definition candidates :: "'a list \<Rightarrow> 'a rule list \<Rightarrow> 'a recs" where
  "candidates input_songs rules = fold (process_rule (set input_songs)) rules []"

text \<open>
  \<open>sorted(xs, key=..., reverse=True)\<close>: Python's sort is stable, and with
  \<open>reverse=True\<close> elements of equal key still keep their original order. An insertion
  sort that places an element before the elements of equal or smaller key, run from the
  right end of the list, computes that list.
\<close>

fun insort_desc :: "('b \<Rightarrow> real) \<Rightarrow> 'b \<Rightarrow> 'b list \<Rightarrow> 'b list" where
  "insort_desc key x [] = [x]"
| "insort_desc key x (y # ys) =
     (if key x \<ge> key y then x # y # ys else y # insort_desc key x ys)"

definition sorted_reverse :: "('b \<Rightarrow> real) \<Rightarrow> 'b list \<Rightarrow> 'b list" where
  "sorted_reverse key xs = foldr (insort_desc key) xs []"

text \<open>
  The slice \<open>xs[:n]\<close>: the first \<open>n\<close> elements, and for a negative \<open>n\<close> all but the
  last \<open>-n\<close> (none when the list is shorter).
\<close>

definition slice_to :: "int \<Rightarrow> 'b list \<Rightarrow> 'b list" where
  "slice_to n xs = (if 0 \<le> n then take (nat n) xs else take (length xs - nat (- n)) xs)"

text \<open>Lines 111-115: the list \<open>sorted_recommendations\<close> of (song, confidence) pairs.\<close>

definition sorted_recommendations :: "'a list \<Rightarrow> 'a rule list \<Rightarrow> int \<Rightarrow> 'a recs" where
  "sorted_recommendations input_songs rules max_recommendations =
     slice_to max_recommendations (sorted_reverse snd (candidates input_songs rules))"

text \<open>
  Lines 82-117. \<open>set(input_songs)\<close> needs hashable elements; the item type \<open>'a\<close>
  stands for hashable values, and the caller's model (\<open>recommend\<close>) raises for the
  others before it comes here.
\<close>

definition get_recommendations :: "'a list \<Rightarrow> 'a rule list \<Rightarrow> int \<Rightarrow> 'a list" where
  "get_recommendations input_songs rules max_recommendations =
     (if rules = [] then []
      else map fst (sorted_recommendations input_songs rules max_recommendations))"

subsection \<open>The order in which candidates are met\<close>

text \<open>
  Every pass through line 105 with a song that the user has not selected, in the order
  of the two nested loops: the (song, confidence) pairs that reach line 107.
\<close>

definition encounters :: "'a list \<Rightarrow> 'a rule list \<Rightarrow> 'a recs" where
  "encounters input_songs rules =
     concat (map (\<lambda>(antecedent, consequent, confidence).
                    if set (as_set antecedent) \<subseteq> set input_songs
                    then map (\<lambda>song. (song, confidence))
                           (filter (\<lambda>song. song \<notin> set input_songs) (as_set consequent))
                    else [])
                 rules)"

text \<open>One pass through lines 105-108, for a (song, confidence) pair.\<close>

abbreviation step :: "'a set \<Rightarrow> 'a \<times> real \<Rightarrow> 'a recs \<Rightarrow> 'a recs" where
  "step S \<equiv> (\<lambda>p. consider_song S (snd p) (fst p))"

text \<open>The position of the first occurrence of \<open>x\<close> in a list (its length when absent).\<close>

fun first_index :: "'a \<Rightarrow> 'a list \<Rightarrow> nat" where
  "first_index x [] = 0"
| "first_index x (y # ys) = (if x = y then 0 else Suc (first_index x ys))"

definition first_met :: "'a list \<Rightarrow> 'a rule list \<Rightarrow> 'a \<Rightarrow> nat" where
  "first_met input_songs rules song = first_index song (map fst (encounters input_songs rules))"

text \<open>
  The confidences of the rules that qualify (antecedent within the liked set) and have
  \<open>song\<close> in their consequent, in the order of the rules.
\<close>

definition qualifying_confidences :: "'a list \<Rightarrow> 'a rule list \<Rightarrow> 'a \<Rightarrow> real list" where
  "qualifying_confidences input_songs rules song =
     map (\<lambda>(antecedent, consequent, confidence). confidence)
       (filter (\<lambda>(antecedent, consequent, confidence).
                  set (as_set antecedent) \<subseteq> set input_songs \<and> song \<in> set (as_set consequent))
          rules)"

text \<open>The scenarios of the specification's section 8, as rule lists.\<close>

definition scenario_A :: "string rule list" where
  "scenario_A = [(Items [''X''], Items [''Y''], 9/10), (Items [''X''], Items [''Z''], 9/10),
                 (Items [''Y''], Items [''W''], 1/2)]"

definition scenario_B :: "string rule list" where
  "scenario_B = [(Items [''X'', ''Y''], Items [''Z''], 8/10)]"

definition scenario_E :: "string rule list" where
  "scenario_E = [(Items [''X''], Items [''Y''], 6/10), (Item ''X'', Item ''Y'', 95/100)]"

text \<open>Two rules from one antecedent, for a limit below the number of candidates.\<close>

definition limit_rules :: "string rule list" where
  "limit_rules = [(Items [''X''], Items [''A''], 9/10), (Items [''X''], Items [''B''], 1/2)]"

section \<open>Python values, exceptions and effects\<close>

text \<open>
  The exceptions the modelled code can meet; all are subclasses of \<open>Exception\<close>, which is
  what the \<open>except\<close> clauses of the source catch. A computation that may raise returns
  \<open>exn + 'a\<close>, with \<open>Inl\<close> for the exception.
\<close>

datatype exn = OSError | UnpicklingError | AttributeError | KeyError string | TypeError
  | BadRequest

text \<open>
  What \<open>pickle.load\<close> can hand back. The model file written by
  src/ml/model_generator.py (lines 114-127) is a dict with the keys \<open>rules\<close>,
  \<open>freq_itemsets\<close> and \<open>metadata\<close>; a dict here has any subset of these keys, each
  entry \<open>None\<close> when its key is missing. \<open>PInt\<close> stands for a pickled object that is no
  dict at all.
\<close>

datatype meta_value = MStr string | MInt int | MFloat real

record model_dict =
  rules_entry :: "string rule list option"
  freq_itemsets_entry :: "string list list option"
  metadata_entry :: "(string \<times> meta_value) list option"

datatype pyobj = PNone | PInt int | PDict model_dict

text \<open>Python's truth value, as \<open>if new_model:\<close> (line 58) tests it.\<close>

fun truthy :: "pyobj \<Rightarrow> bool" where
  "truthy PNone = False"
| "truthy (PInt n) = (n \<noteq> 0)"
| "truthy (PDict d) =
     (\<not> (rules_entry d = None \<and> freq_itemsets_entry d = None \<and> metadata_entry d = None))"

text \<open>
  The effects that matter for the lock discipline, in program order: the calls that touch
  the file system, the entry and exit of \<open>with app.model_lock\<close>, and the assignment of
  the new model.
\<close>

datatype event = PathExists | GetMTime | ReadModelFile | Acquire | Release | Publish

section \<open>The model loader: \<open>load_model\<close> (lines 26-41)\<close>

text \<open>
  What the loader finds on disk: whether \<open>os.path.exists(MODEL_PATH)\<close> holds (line 30),
  and what \<open>open\<close> followed by \<open>pickle.load\<close> does (lines 35-36): raise, or return
  the object.
\<close>

record source =
  path_exists :: bool
  unpickled :: "exn + pyobj"

definition load_model :: "source \<Rightarrow> event list \<times> (exn + pyobj)" where
  "load_model src =
     (if \<not> path_exists src then ([PathExists], Inr PNone)
      else ([PathExists, ReadModelFile],
            (case unpickled src of
               Inr model_data \<Rightarrow> Inr model_data
             | Inl e \<Rightarrow> Inr PNone)))"

section \<open>The model store and its poller: \<open>check_and_reload_model\<close> (lines 43-68)\<close>

record store =
  model_data :: pyobj
  model_last_modified :: "real option"

text \<open>What one pass of the loop finds: lines 50 and 51, and what the loader will find.\<close>

record poll_env =
  exists_at_poll :: bool
  getmtime :: "exn + real"
  at_load :: source

text \<open>
  Lines 61-62 print two entries of \<open>app.model_data['metadata']\<close>; the subscript raises
  for an object that is no dict and for a dict without that key.
\<close>

fun log_reloaded :: "pyobj \<Rightarrow> exn + unit" where
  "log_reloaded (PDict d) =
     (case metadata_entry d of None \<Rightarrow> Inl (KeyError ''metadata'') | Some md \<Rightarrow> Inr ())"
| "log_reloaded obj = Inl TypeError"

text \<open>
  Lines 55-62, run while the lock is held. An exception of lines 61-62 leaves the
  \<open>with\<close> block and is caught at line 64, after both assignments.
\<close>

definition reload_locked :: "real \<Rightarrow> source \<Rightarrow> store \<Rightarrow> event list \<times> store" where
  "reload_locked current_mtime src s =
     (if (case model_last_modified s of None \<Rightarrow> True | Some t \<Rightarrow> current_mtime > t) then
        (case load_model src of
           (ev, Inl e) \<Rightarrow> (ev, s)
         | (ev, Inr new_model) \<Rightarrow>
             if truthy new_model then
               (let s' = s\<lparr>model_data := new_model, model_last_modified := Some current_mtime\<rparr>
                in case log_reloaded new_model of
                     Inl e \<Rightarrow> (ev @ [Publish], s')
                   | Inr u \<Rightarrow> (ev @ [Publish], s'))
             else (ev, s))
      else ([], s))"

text \<open>Lines 49-65: one pass of the loop body, up to the sleep.\<close>

definition check_and_reload_tick :: "poll_env \<Rightarrow> store \<Rightarrow> event list \<times> store" where
  "check_and_reload_tick env s =
     (if exists_at_poll env then
        (case getmtime env of
           Inl e \<Rightarrow> ([PathExists, GetMTime], s)
         | Inr current_mtime \<Rightarrow>
             (case reload_locked current_mtime (at_load env) s of
                (ev, s') \<Rightarrow> ([PathExists, GetMTime, Acquire] @ ev @ [Release], s')))
      else ([PathExists], s))"

text \<open>
  The loop \<open>while True\<close> never returns; what it does to the store is given for each
  finite run of passes, one \<open>poll_env\<close> per pass.
\<close>

definition check_and_reload_model :: "poll_env list \<Rightarrow> store \<Rightarrow> store" where
  "check_and_reload_model envs s = fold (\<lambda>env s. snd (check_and_reload_tick env s)) envs s"



section \<open>The recommend operation: \<open>recommend\<close> (lines 119-186)\<close>

text \<open>Line 17: \<open>os.environ.get('SERVER_VERSION', '1.0')\<close>.\<close>

definition SERVER_VERSION :: "(string \<rightharpoonup> string) \<Rightarrow> string" where
  "SERVER_VERSION environ = (case environ ''SERVER_VERSION'' of None \<Rightarrow> ''1.0'' | Some v \<Rightarrow> v)"

text \<open>
  A decoded JSON value, and the request body as \<open>request.get_json(force=True)\<close> sees it:
  it raises when the body does not parse.
\<close>

datatype json = JNull | JBool bool | JNum real | JStr string | JArr "json list"
  | JObj "(string \<times> json) list"

datatype body = Unparseable | Parsed json

fun truthy_json :: "json \<Rightarrow> bool" where
  "truthy_json JNull = False"
| "truthy_json (JBool b) = b"
| "truthy_json (JNum x) = (x \<noteq> 0)"
| "truthy_json (JStr s) = (s \<noteq> [])"
| "truthy_json (JArr xs) = (xs \<noteq> [])"
| "truthy_json (JObj kvs) = (kvs \<noteq> [])"

fun is_substring :: "string \<Rightarrow> string \<Rightarrow> bool" where
  "is_substring xs [] = (xs = [])"
| "is_substring xs (y # ys) = (take (length xs) (y # ys) = xs \<or> is_substring xs ys)"

text \<open>
  \<open>'songs' in data\<close> (line 153): a key test on a dict, a membership test on a list, a
  substring test on a string, and a TypeError on a value that is no container.
\<close>

fun has_songs :: "json \<Rightarrow> exn + bool" where
  "has_songs (JObj kvs) = Inr (''songs'' \<in> fst ` set kvs)"
| "has_songs (JArr xs) = Inr (JStr ''songs'' \<in> set xs)"
| "has_songs (JStr s) = Inr (is_substring ''songs'' s)"
| "has_songs j = Inl TypeError"

text \<open>\<open>data['songs']\<close> (line 159).\<close>

fun get_songs :: "json \<Rightarrow> exn + json" where
  "get_songs (JObj kvs) =
     (case map_of kvs ''songs'' of None \<Rightarrow> Inl (KeyError ''songs'') | Some v \<Rightarrow> Inr v)"
| "get_songs j = Inl TypeError"

text \<open>Lists and dicts cannot be members of a set; \<open>set(input_songs)\<close> raises for them.\<close>

fun hashable :: "json \<Rightarrow> bool" where
  "hashable (JArr xs) = False"
| "hashable (JObj kvs) = False"
| "hashable j = True"

text \<open>
  The rules hold song names; the liked items are decoded JSON values. A song name equals
  a JSON value exactly when that value is the same string, so the rules are read as rules
  over JSON strings.
\<close>

fun json_itemset :: "string itemset \<Rightarrow> json itemset" where
  "json_itemset (Item x) = Item (JStr x)"
| "json_itemset (Items xs) = Items (map JStr xs)"

fun json_rule :: "string rule \<Rightarrow> json rule" where
  "json_rule (antecedent, consequent, confidence) =
     (json_itemset antecedent, json_itemset consequent, confidence)"

text \<open>The JSON bodies of the replies: an error with its message, or the recommendation.\<close>

datatype message = Text string | StrOf exn

record recommendation =
  songs :: "json list"
  version :: string
  model_date :: meta_value
  input_songs :: "json list"
  num_recommendations :: nat

datatype reply = ErrorReply string message | Recommendation recommendation

text \<open>Lines 168-178, the body of the \<open>try\<close>; the limit is the default 10.\<close>

definition generate :: "(string \<rightharpoonup> string) \<Rightarrow> pyobj \<Rightarrow> json list \<Rightarrow> exn + recommendation" where
  "generate environ model liked =
     (case model of
        PDict d \<Rightarrow>
          (let rules = (case rules_entry d of None \<Rightarrow> [] | Some rs \<Rightarrow> rs) in
           if rules \<noteq> [] \<and> \<not> list_all hashable liked then Inl TypeError
           else
             (let recommendations = get_recommendations liked (map json_rule rules) 10 in
              case metadata_entry d of
                None \<Rightarrow> Inl (KeyError ''metadata'')
              | Some md \<Rightarrow>
                  Inr \<lparr>songs = recommendations,
                       version = SERVER_VERSION environ,
                       model_date = (case map_of md ''model_date'' of
                                       None \<Rightarrow> MStr ''unknown'' | Some v \<Rightarrow> v),
                       input_songs = liked,
                       num_recommendations = length recommendations\<rparr>))
      | PNone \<Rightarrow> Inl AttributeError
      | PInt n \<Rightarrow> Inl AttributeError)"

text \<open>
  Lines 137-186. The result is the pair of JSON body and status code, or \<open>Inl\<close> for an
  exception that no \<open>except\<close> of the function catches.
\<close>

definition recommend :: "(string \<rightharpoonup> string) \<Rightarrow> store \<Rightarrow> body \<Rightarrow> exn + (reply \<times> nat)" where
  \<open>recommend environ s request_body =
     (if model_data s = PNone then
        Inr (ErrorReply ''Model not loaded''
               (Text ''The recommendation model is not available. Please try again later.''),
             503)
      else
        (case request_body of
           Unparseable \<Rightarrow> Inr (ErrorReply ''Invalid JSON'' (StrOf BadRequest), 400)
         | Parsed data \<Rightarrow>
             if \<not> truthy_json data then
               Inr (ErrorReply ''Missing required field''
                      (Text ''Request must include a "songs" field with a list of song names''),
                    400)
             else
               (case has_songs data of
                  Inl e \<Rightarrow> Inl e
                | Inr False \<Rightarrow>
                    Inr (ErrorReply ''Missing required field''
                           (Text ''Request must include a "songs" field with a list of song names''),
                         400)
                | Inr True \<Rightarrow>
                    (case get_songs data of
                       Inl e \<Rightarrow> Inl e
                     | Inr (JArr liked) \<Rightarrow>
                         (case generate environ (model_data s) liked of
                            Inl e \<Rightarrow> Inr (ErrorReply ''Recommendation failed'' (StrOf e), 500)
                          | Inr r \<Rightarrow> Inr (Recommendation r, 200))
                     | Inr other \<Rightarrow>
                         Inr (ErrorReply ''Invalid input''
                                (Text ''"songs" field must be a list''), 400)))))\<close>

text \<open>Stores and requests used as concrete inputs below.\<close>

definition good_model :: pyobj where
  "good_model = PDict \<lparr>rules_entry = Some scenario_A, freq_itemsets_entry = Some [],
     metadata_entry = Some [(''model_date'', MStr ''2024-01-01T12:00:00''),
                            (''version'', MStr ''2.0'')]\<rparr>"

definition loaded_store :: store where
  "loaded_store = \<lparr>model_data = good_model, model_last_modified = Some 100\<rparr>"

definition empty_store :: store where
  "empty_store = \<lparr>model_data = PNone, model_last_modified = None\<rparr>"

definition broken_file_env :: poll_env where
  "broken_file_env = \<lparr>exists_at_poll = True, getmtime = Inr 200,
     at_load = \<lparr>path_exists = True, unpickled = Inl UnpicklingError\<rparr>\<rparr>"

definition fresh_file_env :: poll_env where
  "fresh_file_env = \<lparr>exists_at_poll = True, getmtime = Inr 200,
     at_load = \<lparr>path_exists = True, unpickled = Inr good_model\<rparr>\<rparr>"

definition no_metadata_model :: pyobj where
  "no_metadata_model =
     PDict \<lparr>rules_entry = None, freq_itemsets_entry = Some [], metadata_entry = None\<rparr>"

definition likes_X :: body where
  "likes_X = Parsed (JObj [(''songs'', JArr [JStr ''X''])])"

definition likes_Q :: body where
  "likes_Q = Parsed (JObj [(''songs'', JArr [JStr ''Q''])])"

definition malformed_file_env :: poll_env where
  "malformed_file_env = \<lparr>exists_at_poll = True, getmtime = Inr 200,
     at_load = \<lparr>path_exists = True, unpickled = Inr no_metadata_model\<rparr>\<rparr>"

definition stale_file_env :: poll_env where
  "stale_file_env = \<lparr>exists_at_poll = True, getmtime = Inr 50,
     at_load = \<lparr>path_exists = True, unpickled = Inr good_model\<rparr>\<rparr>"

section \<open>Properties of the recommendation engine\<close>

subsection \<open>The nested loops as one pass over the encounters\<close>

lemma consider_song_liked: "song \<in> S \<Longrightarrow> consider_song S v song recs = recs"
  by (simp add: consider_song_def)

lemma fold_consider_song_filter:
  "fold (consider_song S v) cs acc =
   fold (\<lambda>p. consider_song S (snd p) (fst p)) (map (\<lambda>c. (c, v)) (filter (\<lambda>c. c \<notin> S) cs)) acc"
  by (induction cs arbitrary: acc) (simp_all add: consider_song_liked)

lemma fold_process_rule_encounters:
  "fold (process_rule (set L)) rules acc =
   fold (\<lambda>p. consider_song (set L) (snd p) (fst p)) (encounters L rules) acc"
proof (induction rules arbitrary: acc)
  case Nil
  show ?case by (simp add: encounters_def)
next
  case (Cons r rules)
  obtain a c v where r: "r = (a, c, v)" by (cases r)
  have e: "encounters L (r # rules) =
      (if set (as_set a) \<subseteq> set L
       then map (\<lambda>song. (song, v)) (filter (\<lambda>song. song \<notin> set L) (as_set c)) else [])
      @ encounters L rules"
    by (simp add: encounters_def r)
  show ?case
    unfolding e by (simp add: r Cons.IH fold_consider_song_filter)
qed

lemma encounters_not_liked: "p \<in> set (encounters L rules) \<Longrightarrow> fst p \<notin> set L"
  by (auto simp: encounters_def split: if_splits)

lemma map_fst_dict_set:
  "map fst (dict_set k v kvs) = (if k \<in> fst ` set kvs then map fst kvs else map fst kvs @ [k])"
  by (induction kvs) force+

lemma map_of_dict_set: "map_of (dict_set k v kvs) = (map_of kvs)(k \<mapsto> v)"
  by (induction kvs) auto

lemma map_fst_consider_song:
  "map fst (consider_song S v c recs) =
     (if c \<in> S \<or> c \<in> fst ` set recs then map fst recs else map fst recs @ [c])"
  by (auto simp: consider_song_def map_fst_dict_set map_of_eq_None_iff split: option.splits
      dest: map_of_SomeD intro: rev_image_eqI)

lemma map_of_consider_song:
  "c \<notin> S \<Longrightarrow> map_of (consider_song S v c recs) =
     (map_of recs)(c \<mapsto> (case map_of recs c of None \<Rightarrow> v | Some h \<Rightarrow> max h v))"
  by (auto simp: consider_song_def map_of_dict_set max_def split: option.splits)

lemma first_index_append:
  "first_index x (xs @ ys) =
     (if x \<in> set xs then first_index x xs else length xs + first_index x ys)"
  by (induction xs) auto

lemma first_index_less: "x \<in> set xs \<Longrightarrow> first_index x xs < length xs"
  by (induction xs) auto

lemma keys_fold_step:
  assumes "\<forall>p \<in> set E. fst p \<notin> S"
  shows "set (map fst (fold (step S) E [])) = fst ` set E \<and>
         sorted_wrt (\<lambda>a b. first_index a (map fst E) < first_index b (map fst E))
           (map fst (fold (step S) E []))"
  using assms
proof (induction E rule: rev_induct)
  case Nil
  show ?case by simp
next
  case (snoc p E)
  let ?ks = "map fst (fold (step S) E [])"
  have ih: "set ?ks = fst ` set E"
    "sorted_wrt (\<lambda>a b. first_index a (map fst E) < first_index b (map fst E)) ?ks"
    using snoc by auto
  have notin: "fst p \<notin> S" using snoc.prems by simp
  have ks': "map fst (fold (step S) (E @ [p]) []) =
      (if fst p \<in> fst ` set E then ?ks else ?ks @ [fst p])"
    using ih(1) notin by (simp add: map_fst_consider_song)
  have mono: "sorted_wrt (\<lambda>a b. first_index a (map fst (E @ [p])) < first_index b (map fst (E @ [p]))) ?ks"
  proof (rule sorted_wrt_mono_rel[OF _ ih(2)])
    fix a b assume "a \<in> set ?ks" "b \<in> set ?ks"
      and "first_index a (map fst E) < first_index b (map fst E)"
    then show "first_index a (map fst (E @ [p])) < first_index b (map fst (E @ [p]))"
      using ih(1) by (simp add: first_index_append)
  qed
  show ?case
  proof (cases "fst p \<in> fst ` set E")
    case True
    have "fst ` set (E @ [p]) = fst ` set E" using True by auto
    then show ?thesis using ks' ih(1) mono True by simp
  next
    case False
    have lt: "\<forall>a \<in> set ?ks. first_index a (map fst (E @ [p])) < first_index (fst p) (map fst (E @ [p]))"
    proof
      fix a assume "a \<in> set ?ks"
      then have a: "a \<in> set (map fst E)" using ih(1) by simp
      have "first_index a (map fst E) < length (map fst E)" by (rule first_index_less[OF a])
      then show "first_index a (map fst (E @ [p])) < first_index (fst p) (map fst (E @ [p]))"
        using a False by (simp add: first_index_append)
    qed
    have k: "map fst (fold (step S) (E @ [p]) []) = ?ks @ [fst p]" using ks' False by simp
    have "sorted_wrt (\<lambda>a b. first_index a (map fst (E @ [p])) < first_index b (map fst (E @ [p])))
            (?ks @ [fst p])"
      unfolding sorted_wrt_append using mono lt by simp
    moreover have "set (?ks @ [fst p]) = fst ` set (E @ [p])" using ih(1) by auto
    ultimately show ?thesis unfolding k by blast
  qed
qed

lemma map_of_fold_step:
  assumes "\<forall>p \<in> set E. fst p \<notin> S"
  shows "map_of (fold (step S) E []) c =
     (if c \<in> fst ` set E then Some (Max {v. (c, v) \<in> set E}) else None)"
  using assms
proof (induction E arbitrary: c rule: rev_induct)
  case Nil
  show ?case by simp
next
  case (snoc p E)
  obtain d v where p: "p = (d, v)" by (cases p)
  have notin: "d \<notin> S" using snoc.prems p by simp
  have ih: "map_of (fold (step S) E []) c =
     (if c \<in> fst ` set E then Some (Max {v. (c, v) \<in> set E}) else None)" for c
    using snoc by simp
  have fin: "finite {v. (c, v) \<in> set E}" for c
  proof -
    have "{v. (c, v) \<in> set E} \<subseteq> snd ` set E" by force
    then show ?thesis by (rule finite_subset) simp
  qed
  show ?case
  proof (cases "c = d")
    case False
    then have "{w. (c, w) \<in> set (E @ [p])} = {w. (c, w) \<in> set E}" by (auto simp: p)
    moreover have "c \<in> fst ` set (E @ [p]) \<longleftrightarrow> c \<in> fst ` set E" using False by (auto simp: p)
    ultimately show ?thesis using False notin by (simp add: p map_of_consider_song ih)
  next
    case True
    have s: "{w. (d, w) \<in> set (E @ [p])} = insert v {w. (d, w) \<in> set E}" by (auto simp: p)
    show ?thesis
    proof (cases "d \<in> fst ` set E")
      case False
      then have "{w. (d, w) \<in> set E} = {}" by force
      then show ?thesis using True notin False by (simp add: p map_of_consider_song ih s)
    next
      case in_E: True
      then have ne: "{w. (d, w) \<in> set E} \<noteq> {}" by force
      have m: "Max {w. (d, w) \<in> set (E @ [p])} = max (Max {w. (d, w) \<in> set E}) v"
        unfolding s using Max_insert[OF fin ne, of v] by (simp add: max.commute)
      have lhs: "map_of (fold (step S) (E @ [p]) []) d = Some (max (Max {w. (d, w) \<in> set E}) v)"
        using notin in_E by (simp add: p map_of_consider_song ih)
      have mem: "d \<in> fst ` set (E @ [p])" by (simp add: p)
      show ?thesis unfolding True by (simp only: lhs m mem if_True)
    qed
  qed
qed

lemma distinct_keys_fold_step:
  "distinct (map fst acc) \<Longrightarrow> distinct (map fst (fold (step S) E acc))"
  by (induction E arbitrary: acc) (auto simp: map_fst_consider_song)

subsection \<open>The stable descending sort and the slice\<close>

lemma set_insort_desc: "set (insort_desc key x ys) = insert x (set ys)"
  by (induction ys) auto

lemma set_sorted_reverse: "set (sorted_reverse key xs) = set xs"
  by (induction xs) (simp_all add: sorted_reverse_def set_insort_desc)

lemma distinct_map_insort_desc:
  "distinct (map g (insort_desc key x ys)) \<longleftrightarrow> g x \<notin> g ` set ys \<and> distinct (map g ys)"
  by (induction ys) (auto simp: set_insort_desc)

lemma distinct_map_sorted_reverse:
  "distinct (map g (sorted_reverse key xs)) \<longleftrightarrow> distinct (map g xs)"
proof (induction xs)
  case Nil
  show ?case by (simp add: sorted_reverse_def)
next
  case (Cons x xs)
  have "sorted_reverse key (x # xs) = insort_desc key x (sorted_reverse key xs)"
    by (simp add: sorted_reverse_def)
  then show ?case
    using Cons by (simp add: distinct_map_insort_desc set_sorted_reverse)
qed

lemma insort_desc_lex:
  assumes "sorted_wrt (\<lambda>p q. key p > key q \<or> (key p = key q \<and> idx p < (idx q :: nat))) ys"
    and "\<forall>y \<in> set ys. idx x < idx y"
  shows "sorted_wrt (\<lambda>p q. key p > key q \<or> (key p = key q \<and> idx p < idx q))
           (insort_desc key x ys)"
  using assms
proof (induction ys)
  case Nil
  show ?case by simp
next
  case (Cons y ys)
  show ?case
  proof (cases "key x \<ge> key y")
    case True
    have "key x > key z \<or> (key x = key z \<and> idx x < idx z)" if "z \<in> set (y # ys)" for z
    proof -
      have "key y \<ge> key z" using that Cons.prems(1) by auto
      moreover have "idx x < idx z" using that Cons.prems(2) by auto
      ultimately show ?thesis using True by auto
    qed
    then show ?thesis using True Cons.prems(1) by simp
  next
    case False
    have "sorted_wrt (\<lambda>p q. key p > key q \<or> (key p = key q \<and> idx p < idx q))
            (insort_desc key x ys)"
      using Cons by simp
    then show ?thesis using False Cons.prems(1) by (auto simp: set_insort_desc)
  qed
qed

lemma sorted_reverse_lex:
  assumes "sorted_wrt (\<lambda>p q. idx p < (idx q :: nat)) xs"
  shows "sorted_wrt (\<lambda>p q. key p > key q \<or> (key p = key q \<and> idx p < idx q))
           (sorted_reverse key xs)"
  using assms
proof (induction xs)
  case Nil
  show ?case by (simp add: sorted_reverse_def)
next
  case (Cons x xs)
  have unfold: "sorted_reverse key (x # xs) = insort_desc key x (sorted_reverse key xs)"
    by (simp add: sorted_reverse_def)
  have "sorted_wrt (\<lambda>p q. key p > key q \<or> (key p = key q \<and> idx p < idx q))
          (sorted_reverse key xs)"
    using Cons by simp
  moreover have "\<forall>y \<in> set (sorted_reverse key xs). idx x < idx y"
    using Cons.prems by (simp add: set_sorted_reverse)
  ultimately show ?case unfolding unfold by (rule insort_desc_lex)
qed

lemma slice_to_take: "\<exists>k. slice_to n xs = take k xs"
  by (auto simp: slice_to_def)

lemma set_slice_to: "set (slice_to n xs) \<subseteq> set xs"
  using slice_to_take[of n xs] by (auto dest: in_set_takeD)

lemma sorted_wrt_slice_to: "sorted_wrt R xs \<Longrightarrow> sorted_wrt R (slice_to n xs)"
  using slice_to_take[of n xs] by (auto simp: sorted_wrt_take)

lemma distinct_map_slice_to: "distinct (map g xs) \<Longrightarrow> distinct (map g (slice_to n xs))"
  using slice_to_take[of n xs] by (auto simp: take_map[symmetric])

lemma slice_to_all: "int (length xs) \<le> n \<Longrightarrow> slice_to n xs = xs"
  by (auto simp: slice_to_def)

lemma candidates_encounters:
  "candidates L rules = fold (step (set L)) (encounters L rules) []"
  by (simp add: candidates_def fold_process_rule_encounters)

lemma encounters_all_not_liked: "\<forall>p \<in> set (encounters L rules). fst p \<notin> set L"
  using encounters_not_liked by blast

lemma keys_candidates: "fst ` set (candidates L rules) = fst ` set (encounters L rules)"
  using keys_fold_step[OF encounters_all_not_liked, of L rules]
  by (simp add: candidates_encounters)

lemma candidates_first_met:
  "sorted_wrt (\<lambda>p q. first_met L rules (fst p) < first_met L rules (fst q)) (candidates L rules)"
proof -
  have "sorted_wrt (\<lambda>a b. first_met L rules a < first_met L rules b)
          (map fst (candidates L rules))"
    using keys_fold_step[OF encounters_all_not_liked, of L rules]
    by (simp add: candidates_encounters first_met_def)
  then show ?thesis by (simp add: sorted_wrt_map)
qed

lemma distinct_candidates: "distinct (map fst (candidates L rules))"
  unfolding candidates_encounters by (rule distinct_keys_fold_step) simp

lemma candidates_Nil: "candidates L [] = []"
  by (simp add: candidates_def)

lemma get_recommendations_pairs:
  "get_recommendations L rules n = map fst (sorted_recommendations L rules n)"
  by (simp add: get_recommendations_def sorted_recommendations_def candidates_Nil
      sorted_reverse_def slice_to_def)

lemma set_sorted_recommendations:
  "set (sorted_recommendations L rules n) \<subseteq> set (candidates L rules)"
  using set_slice_to[of n "sorted_reverse snd (candidates L rules)"]
  by (simp add: sorted_recommendations_def set_sorted_reverse)

lemma encounters_confidences:
  "c \<notin> set L \<Longrightarrow> {v. (c, v) \<in> set (encounters L rules)} = set (qualifying_confidences L rules c)"
  by (auto simp: encounters_def qualifying_confidences_def split: if_splits) force+

lemma encounters_keys:
  "c \<in> fst ` set (encounters L rules) \<longleftrightarrow>
     (\<exists>(antecedent, consequent, confidence) \<in> set rules.
        set (as_set antecedent) \<subseteq> set L \<and> c \<in> set (as_set consequent) \<and> c \<notin> set L)"
  by (auto simp: encounters_def split: if_splits) force+

subsection \<open>The claims about \<open>get_recommendations\<close>\<close>

text \<open>
  C1. For every liked list, rule list and limit, the returned songs are the first
  components of the pairs \<open>sorted_recommendations\<close>, each pair an entry of the dict
  \<open>recommendations\<close>, and along that list the confidence never increases; songs of
  equal confidence stand in the order in which they were first met by the loops, which is
  the order of their first insertion into the dict.
\<close>

theorem recommendations_ranked:
  "get_recommendations L rules n = map fst (sorted_recommendations L rules n) \<and>
   set (sorted_recommendations L rules n) \<subseteq> set (candidates L rules) \<and>
   sorted_wrt (\<lambda>p q. snd p > snd q \<or>
                 (snd p = snd q \<and> first_met L rules (fst p) < first_met L rules (fst q)))
     (sorted_recommendations L rules n)"
proof -
  have "sorted_wrt (\<lambda>p q. snd p > snd q \<or>
                 (snd p = snd q \<and> first_met L rules (fst p) < first_met L rules (fst q)))
     (sorted_reverse snd (candidates L rules))"
    by (rule sorted_reverse_lex[OF candidates_first_met])
  then have "sorted_wrt (\<lambda>p q. snd p > snd q \<or>
                 (snd p = snd q \<and> first_met L rules (fst p) < first_met L rules (fst q)))
     (sorted_recommendations L rules n)"
    unfolding sorted_recommendations_def by (rule sorted_wrt_slice_to)
  then show ?thesis
    using get_recommendations_pairs[of L rules n] set_sorted_recommendations[of L rules n]
    by blast
qed

text \<open>Scenario A: a tie at 0.9 is resolved by the order of the rules.\<close>

lemma scenario_A_result: "get_recommendations [''X''] scenario_A 10 = [''Y'', ''Z'']"
  by (simp add: get_recommendations_def sorted_recommendations_def candidates_def
      scenario_A_def consider_song_def sorted_reverse_def slice_to_def)

text \<open>
  C2. A song is returned at most once, and the confidence it is ranked by is the largest
  confidence among the qualifying rules that have it in their consequent: no sum and no
  average.
\<close>

theorem highest_confidence_kept:
  "distinct (get_recommendations L rules n) \<and>
   (\<forall>(song, confidence) \<in> set (sorted_recommendations L rules n).
      qualifying_confidences L rules song \<noteq> [] \<and>
      confidence = Max (set (qualifying_confidences L rules song)))"
proof -
  have d: "distinct (get_recommendations L rules n)"
    unfolding get_recommendations_pairs sorted_recommendations_def
    by (rule distinct_map_slice_to) (simp add: distinct_map_sorted_reverse distinct_candidates)
  have "qualifying_confidences L rules c \<noteq> [] \<and> v = Max (set (qualifying_confidences L rules c))"
    if "(c, v) \<in> set (sorted_recommendations L rules n)" for c v
  proof -
    have mem: "(c, v) \<in> set (candidates L rules)" using that set_sorted_recommendations by blast
    then have "map_of (candidates L rules) c = Some v"
      using distinct_candidates[of L rules] by (simp add: map_of_eq_Some_iff)
    moreover have key: "c \<in> fst ` set (encounters L rules)"
      using mem keys_candidates[of L rules] by force
    ultimately have v: "v = Max {w. (c, w) \<in> set (encounters L rules)}"
      using map_of_fold_step[OF encounters_all_not_liked, of L rules c]
      by (simp add: candidates_encounters)
    have nl: "c \<notin> set L" using key encounters_not_liked by force
    have "{w. (c, w) \<in> set (encounters L rules)} \<noteq> {}" using key by force
    then show ?thesis using v encounters_confidences[OF nl, of rules] by auto
  qed
  then show ?thesis using d by blast
qed

text \<open>Scenario E: two rules conclude Y, with 0.6 and 0.95; Y is listed once, at 0.95.\<close>

theorem highest_confidence_kept_witness:
  "get_recommendations [''X''] scenario_E 10 = [''Y''] \<and>
   sorted_recommendations [''X''] scenario_E 10 = [(''Y'', 95/100)] \<and>
   Max (set (qualifying_confidences [''X''] scenario_E ''Y'')) = 95/100"
proof -
  have s: "sorted_recommendations [''X''] scenario_E 10 = [(''Y'', 95/100)]"
    by (simp add: sorted_recommendations_def candidates_def
      scenario_E_def consider_song_def sorted_reverse_def slice_to_def)
  have g: "get_recommendations [''X''] scenario_E 10 = [''Y'']"
    by (simp add: get_recommendations_def s) (simp add: scenario_E_def)
  show ?thesis
    using highest_confidence_kept[of "[''X'']" scenario_E 10] s g by simp
qed

text \<open>C3. No returned song is one of the liked songs.\<close>

theorem no_self_recommendation: "set (get_recommendations L rules n) \<inter> set L = {}"
proof -
  have "set (get_recommendations L rules n) \<subseteq> fst ` set (encounters L rules)"
    using set_sorted_recommendations[of L rules n] keys_candidates[of L rules]
    by (auto simp: get_recommendations_pairs)
  then show ?thesis using encounters_not_liked by fastforce
qed

lemma process_rule_unqualified:
  "\<not> set (as_set (fst r)) \<subseteq> S \<Longrightarrow> process_rule S r recs = recs"
  by (cases r) simp

lemma candidates_filter:
  "fold (process_rule S) (filter (\<lambda>r. set (as_set (fst r)) \<subseteq> S) rules) acc =
   fold (process_rule S) rules acc"
  by (induction rules arbitrary: acc) (simp_all add: process_rule_unqualified)

text \<open>
  Lengths, and the keys of the dict in terms of the rules.
\<close>

lemma length_insort_desc: "length (insort_desc key x ys) = Suc (length ys)"
  by (induction ys) simp_all

lemma length_sorted_reverse: "length (sorted_reverse key xs) = length xs"
  by (induction xs) (simp_all add: sorted_reverse_def length_insort_desc)

lemma length_slice_to:
  "length (slice_to n xs) =
     (if 0 \<le> n then min (nat n) (length xs) else length xs - nat (- n))"
  by (cases "0 \<le> n") (auto simp: slice_to_def)

lemma keys_candidates_rules:
  "fst ` set (candidates L rules) =
     {song. \<exists>(antecedent, consequent, confidence) \<in> set rules.
        set (as_set antecedent) \<subseteq> set L \<and> song \<in> set (as_set consequent) \<and> song \<notin> set L}"
  unfolding keys_candidates using encounters_keys[of _ L rules] by blast

lemma length_candidates: "length (candidates L rules) = card (fst ` set (candidates L rules))"
  using distinct_card[OF distinct_candidates[of L rules]] by simp

text \<open>
  C4, as stated, fails in its "if" half. A rule whose antecedent is covered need not
  contribute to the result: its consequent may hold liked songs only (line 105 skips
  them), and the limit may cut its candidate off.
\<close>

theorem covered_rule_without_contribution:
  "set (as_set (Items [''X''])) \<subseteq> set [''X'', ''Y''] \<and>
   get_recommendations [''X'', ''Y''] [(Items [''X''], Items [''Y''], 9/10)] 10 = [] \<and>
   set (as_set (Items [''X''])) \<subseteq> set [''X''] \<and>
   get_recommendations [''X''] limit_rules 1 = [''A'']"
  by (simp add: get_recommendations_def sorted_recommendations_def candidates_def
      limit_rules_def consider_song_def sorted_reverse_def slice_to_def)

text \<open>
  C4, amended. A rule contributes only if its antecedent lies within the liked set:
  dropping every other rule leaves the result unchanged, and scenario B, with its
  antecedent half covered, gives the empty list. The qualifying songs are the songs that
  are in the consequent of some covered rule and are not liked. The result holds
  qualifying songs only; its length is the limit or the number of qualifying songs,
  whichever is smaller (for a negative limit, that number less the limit's magnitude); and
  when the limit is at least their number the result holds exactly the qualifying songs,
  as in scenario A.
\<close>

theorem antecedent_must_be_covered:
  "(let qualifying = {song. \<exists>(antecedent, consequent, confidence) \<in> set rules.
        set (as_set antecedent) \<subseteq> set L \<and> song \<in> set (as_set consequent) \<and> song \<notin> set L}
    in
      get_recommendations L (filter (\<lambda>r. set (as_set (fst r)) \<subseteq> set L) rules) n =
        get_recommendations L rules n \<and>
      set (get_recommendations L rules n) \<subseteq> qualifying \<and>
      length (get_recommendations L rules n) =
        (if 0 \<le> n then min (nat n) (card qualifying) else card qualifying - nat (- n)) \<and>
      (int (card qualifying) \<le> n \<longrightarrow> set (get_recommendations L rules n) = qualifying)) \<and>
   get_recommendations [''X''] scenario_B 10 = [] \<and>
   get_recommendations [''X''] scenario_A 10 = [''Y'', ''Z'']"
proof -
  let ?Q = "{song. \<exists>(antecedent, consequent, confidence) \<in> set rules.
        set (as_set antecedent) \<subseteq> set L \<and> song \<in> set (as_set consequent) \<and> song \<notin> set L}"
  have q: "fst ` set (candidates L rules) = ?Q" by (rule keys_candidates_rules)
  have c: "candidates L (filter (\<lambda>r. set (as_set (fst r)) \<subseteq> set L) rules) = candidates L rules"
    by (simp add: candidates_def candidates_filter)
  have 1: "get_recommendations L (filter (\<lambda>r. set (as_set (fst r)) \<subseteq> set L) rules) n =
     get_recommendations L rules n"
    by (simp add: get_recommendations_pairs sorted_recommendations_def c)
  have 2: "set (get_recommendations L rules n) \<subseteq> ?Q"
    unfolding q[symmetric]
    using set_sorted_recommendations[of L rules n] by (auto simp: get_recommendations_pairs)
  have len: "length (candidates L rules) = card ?Q"
    using length_candidates[of L rules] q by simp
  have 3: "length (get_recommendations L rules n) =
        (if 0 \<le> n then min (nat n) (card ?Q) else card ?Q - nat (- n))"
    by (simp only: get_recommendations_pairs sorted_recommendations_def length_map
        length_slice_to length_sorted_reverse len)
  have 4: "set (get_recommendations L rules n) = ?Q" if "int (card ?Q) \<le> n"
  proof -
    have "int (length (sorted_reverse snd (candidates L rules))) \<le> n"
      using that len by (simp add: length_sorted_reverse)
    then have "get_recommendations L rules n = map fst (sorted_reverse snd (candidates L rules))"
      by (simp add: get_recommendations_pairs sorted_recommendations_def slice_to_all)
    then show ?thesis using q by (simp add: set_sorted_reverse)
  qed
  have 5: "get_recommendations [''X''] scenario_B 10 = []"
    by (simp add: get_recommendations_def sorted_recommendations_def candidates_def
      scenario_B_def sorted_reverse_def slice_to_def)
  have 6: "get_recommendations [''X''] scenario_A 10 = [''Y'', ''Z'']"
    by (simp add: get_recommendations_def sorted_recommendations_def candidates_def
      scenario_A_def consider_song_def sorted_reverse_def slice_to_def)
  show ?thesis unfolding Let_def using 1 2 3 4 5 6 by blast
qed

text \<open>
  Scenario A with the liked list X: the qualifying songs are Y and Z; the third rule, whose
  antecedent Y is not liked, adds nothing.
\<close>

theorem antecedent_must_be_covered_witness:
  "{song. \<exists>(antecedent, consequent, confidence) \<in> set scenario_A.
        set (as_set antecedent) \<subseteq> set [''X''] \<and> song \<in> set (as_set consequent) \<and>
        song \<notin> set [''X'']} = {''Y'', ''Z''} \<and>
   set (get_recommendations [''X''] scenario_A 10) = {''Y'', ''Z''} \<and>
   length (get_recommendations [''X''] scenario_A 10) = 2 \<and>
   length (get_recommendations [''X''] scenario_A 1) = 1 \<and>
   get_recommendations [''X''] (filter (\<lambda>r. set (as_set (fst r)) \<subseteq> set [''X'']) scenario_A) 10 =
     get_recommendations [''X''] scenario_A 10"
proof -
  have q: "{song. \<exists>(antecedent, consequent, confidence) \<in> set scenario_A.
        set (as_set antecedent) \<subseteq> set [''X''] \<and> song \<in> set (as_set consequent) \<and>
        song \<notin> set [''X'']} = {''Y'', ''Z''}"
    by (auto simp: scenario_A_def)
  show ?thesis
    using antecedent_must_be_covered[of scenario_A "[''X'']" 10]
      antecedent_must_be_covered[of scenario_A "[''X'']" 1]
    unfolding Let_def q by simp
qed

section \<open>Properties of the model loader and the model store\<close>

text \<open>
  C5, as stated, fails. A missing source and a source that cannot be unpickled give the
  same value, \<open>None\<close>, so the two failures are not distinct; and a dict that has
  neither \<open>rules\<close> nor \<open>metadata\<close> is returned as the model, and the poller
  publishes it over a good one: nothing validates the structure.
\<close>

theorem load_model_no_validation:
  "snd (load_model \<lparr>path_exists = False, unpickled = Inl OSError\<rparr>) =
     snd (load_model \<lparr>path_exists = True, unpickled = Inl UnpicklingError\<rparr>) \<and>
   snd (load_model \<lparr>path_exists = True, unpickled = Inr no_metadata_model\<rparr>) =
     Inr no_metadata_model \<and>
   model_data (snd (check_and_reload_tick
      \<lparr>exists_at_poll = True, getmtime = Inr 200,
       at_load = \<lparr>path_exists = True, unpickled = Inr no_metadata_model\<rparr>\<rparr> loaded_store)) =
     no_metadata_model"
  by (simp add: load_model_def check_and_reload_tick_def reload_locked_def loaded_store_def
      no_metadata_model_def)

text \<open>
  C5, amended. \<open>load_model\<close> never raises. It returns \<open>None\<close> when the source is
  missing and also when opening or unpickling it raises; otherwise it returns the
  unpickled object whole, as it is, with no check of its structure.
\<close>

theorem load_model_returns:
  "(\<exists>obj. snd (load_model src) = Inr obj) \<and>
   (\<not> path_exists src \<longrightarrow> snd (load_model src) = Inr PNone) \<and>
   (path_exists src \<longrightarrow>
      (\<forall>e. unpickled src = Inl e \<longrightarrow> snd (load_model src) = Inr PNone) \<and>
      (\<forall>obj. unpickled src = Inr obj \<longrightarrow> snd (load_model src) = Inr obj))"
  by (auto simp: load_model_def split: sum.splits)

text \<open>
  A missing source, a corrupt one and a good one.
\<close>

theorem load_model_returns_witness:
  "snd (load_model \<lparr>path_exists = False, unpickled = Inr good_model\<rparr>) = Inr PNone \<and>
   snd (load_model \<lparr>path_exists = True, unpickled = Inl UnpicklingError\<rparr>) = Inr PNone \<and>
   snd (load_model \<lparr>path_exists = True, unpickled = Inr good_model\<rparr>) = Inr good_model"
  using load_model_returns[of "\<lparr>path_exists = False, unpickled = Inr good_model\<rparr>"]
    load_model_returns[of "\<lparr>path_exists = True, unpickled = Inl UnpicklingError\<rparr>"]
    load_model_returns[of "\<lparr>path_exists = True, unpickled = Inr good_model\<rparr>"]
  by simp

text \<open>
  C6, as stated, fails. After a successful load the file is replaced by one that is
  malformed but still unpickles, a dict with neither \<open>rules\<close> nor \<open>metadata\<close>:
  the next pass publishes it in place of the good model, and a request then gets status
  500.
\<close>

theorem malformed_file_replaces_model:
  "snd (check_and_reload_tick malformed_file_env loaded_store) =
     \<lparr>model_data = no_metadata_model, model_last_modified = Some 200\<rparr> \<and>
   snd (check_and_reload_tick malformed_file_env loaded_store) \<noteq> loaded_store \<and>
   recommend Map.empty (snd (check_and_reload_tick malformed_file_env loaded_store)) likes_X =
     Inr (ErrorReply ''Recommendation failed'' (StrOf (KeyError ''metadata'')), 500)"
proof -
  have t: "snd (check_and_reload_tick malformed_file_env loaded_store) =
     \<lparr>model_data = no_metadata_model, model_last_modified = Some 200\<rparr>"
    by (simp add: malformed_file_env_def loaded_store_def check_and_reload_tick_def
        reload_locked_def load_model_def no_metadata_model_def)
  have n: "\<lparr>model_data = no_metadata_model, model_last_modified = Some 200\<rparr> \<noteq> loaded_store"
    by (simp add: loaded_store_def)
  have r: "recommend Map.empty \<lparr>model_data = no_metadata_model, model_last_modified = Some 200\<rparr>
      likes_X = Inr (ErrorReply ''Recommendation failed'' (StrOf (KeyError ''metadata'')), 500)"
    by (simp add: recommend_def no_metadata_model_def likes_X_def generate_def
        get_recommendations_def)
  show ?thesis unfolding t using n r by simp
qed

text \<open>
  What a pass of the poller does to the store, case by case.
\<close>

lemma tick_no_truthy_load:
  "\<forall>m. snd (load_model (at_load env)) = Inr m \<longrightarrow> \<not> truthy m \<Longrightarrow>
   snd (check_and_reload_tick env s) = s"
  by (cases "load_model (at_load env)")
     (auto simp: check_and_reload_tick_def reload_locked_def split: sum.splits option.splits)

lemma run_no_truthy_loads:
  "\<forall>env \<in> set envs. \<forall>m. snd (load_model (at_load env)) = Inr m \<longrightarrow> \<not> truthy m \<Longrightarrow>
   check_and_reload_model envs s = s"
  by (induction envs) (simp_all add: check_and_reload_model_def tick_no_truthy_load)

lemma load_unreadable:
  "\<not> path_exists src \<or> (\<exists>e. unpickled src = Inl e) \<Longrightarrow> snd (load_model src) = Inr PNone"
  by (auto simp: load_model_def)

lemma tick_publishes:
  "exists_at_poll env \<Longrightarrow> getmtime env = Inr t \<Longrightarrow>
   (case model_last_modified s of None \<Rightarrow> True | Some held \<Rightarrow> t > held) \<Longrightarrow>
   snd (load_model (at_load env)) = Inr m \<Longrightarrow> truthy m \<Longrightarrow>
   snd (check_and_reload_tick env s) = \<lparr>model_data = m, model_last_modified = Some t\<rparr>"
  by (cases "load_model (at_load env)")
     (auto simp: check_and_reload_tick_def reload_locked_def Let_def
        split: sum.splits option.splits)

lemma tick_skips:
  "\<not> exists_at_poll env \<or> (\<exists>e. getmtime env = Inl e) \<or>
   (\<exists>t held. getmtime env = Inr t \<and> model_last_modified s = Some held \<and> t \<le> held) \<Longrightarrow>
   snd (check_and_reload_tick env s) = s"
  by (auto simp: check_and_reload_tick_def reload_locked_def)

text \<open>
  C6, amended. A pass on which the source is missing or cannot be opened and unpickled,
  and more generally one on which \<open>load_model\<close> returns no object that counts as
  true, leaves the pair of model and modification time exactly as it was, and so does
  every run of such passes, however long. A pass on which the file exists, its
  modification time is newer than the recorded one (or none is recorded) and
  \<open>load_model\<close> returns an object that counts as true replaces both components
  together, by that object and that time, whatever the object's structure. A pass on
  which the file does not exist, its time cannot be read, or its time is not newer leaves
  the pair as it was.
\<close>

theorem poll_tick_outcome:
  "((\<not> path_exists (at_load env) \<or> (\<exists>e. unpickled (at_load env) = Inl e)) \<longrightarrow>
      snd (check_and_reload_tick env s) = s) \<and>
   ((\<forall>m. snd (load_model (at_load env)) = Inr m \<longrightarrow> \<not> truthy m) \<longrightarrow>
      snd (check_and_reload_tick env s) = s) \<and>
   ((\<forall>env \<in> set envs. \<forall>m. snd (load_model (at_load env)) = Inr m \<longrightarrow> \<not> truthy m) \<longrightarrow>
      check_and_reload_model envs s = s) \<and>
   (exists_at_poll env \<and> getmtime env = Inr t \<and>
    (case model_last_modified s of None \<Rightarrow> True | Some held \<Rightarrow> t > held) \<and>
    snd (load_model (at_load env)) = Inr m \<and> truthy m \<longrightarrow>
      snd (check_and_reload_tick env s) = \<lparr>model_data = m, model_last_modified = Some t\<rparr>) \<and>
   (\<not> exists_at_poll env \<or> (\<exists>e. getmtime env = Inl e) \<or>
    (\<exists>t held. getmtime env = Inr t \<and> model_last_modified s = Some held \<and> t \<le> held) \<longrightarrow>
      snd (check_and_reload_tick env s) = s)"
proof -
  have 1: "snd (check_and_reload_tick env s) = s"
    if "\<not> path_exists (at_load env) \<or> (\<exists>e. unpickled (at_load env) = Inl e)"
    using load_unreadable[OF that] by (intro tick_no_truthy_load) auto
  show ?thesis
    using 1 tick_no_truthy_load[of env s] run_no_truthy_loads[of envs s]
      tick_publishes[of env t s m] tick_skips[of env s]
    by blast
qed

text \<open>
  A store holding a model: polled three times while the file is corrupt, polled when a
  newer good file is there, and polled when the file is older; and a first load into the
  empty store.
\<close>

theorem poll_tick_outcome_witness:
  "snd (check_and_reload_tick broken_file_env loaded_store) = loaded_store \<and>
   check_and_reload_model [broken_file_env, broken_file_env, broken_file_env] loaded_store =
     loaded_store \<and>
   snd (check_and_reload_tick fresh_file_env loaded_store) =
     \<lparr>model_data = good_model, model_last_modified = Some 200\<rparr> \<and>
   snd (check_and_reload_tick fresh_file_env loaded_store) \<noteq> loaded_store \<and>
   snd (check_and_reload_tick fresh_file_env empty_store) =
     \<lparr>model_data = good_model, model_last_modified = Some 200\<rparr> \<and>
   snd (check_and_reload_tick stale_file_env loaded_store) = loaded_store"
proof -
  have b: "snd (load_model (at_load broken_file_env)) = Inr PNone"
    "path_exists (at_load broken_file_env)" "unpickled (at_load broken_file_env) = Inl UnpicklingError"
    by (simp_all add: broken_file_env_def load_model_def)
  have f: "exists_at_poll fresh_file_env" "getmtime fresh_file_env = Inr 200"
    "snd (load_model (at_load fresh_file_env)) = Inr good_model" "truthy good_model"
    by (simp_all add: fresh_file_env_def load_model_def good_model_def)
  have st: "getmtime stale_file_env = Inr 50" "exists_at_poll stale_file_env"
    by (simp_all add: stale_file_env_def)
  have l: "model_last_modified loaded_store = Some 100" "model_last_modified empty_store = None"
    by (simp_all add: loaded_store_def empty_store_def)
  have 1: "snd (check_and_reload_tick broken_file_env loaded_store) = loaded_store"
    "check_and_reload_model [broken_file_env, broken_file_env, broken_file_env] loaded_store =
     loaded_store"
    using poll_tick_outcome[of broken_file_env loaded_store
        "[broken_file_env, broken_file_env, broken_file_env]" 200 good_model] b
    by simp_all
  have 2: "snd (check_and_reload_tick fresh_file_env loaded_store) =
     \<lparr>model_data = good_model, model_last_modified = Some 200\<rparr>"
    using poll_tick_outcome[of fresh_file_env loaded_store "[]" 200 good_model] f l by simp
  have 3: "snd (check_and_reload_tick fresh_file_env empty_store) =
     \<lparr>model_data = good_model, model_last_modified = Some 200\<rparr>"
    using poll_tick_outcome[of fresh_file_env empty_store "[]" 200 good_model] f l by simp
  have 4: "snd (check_and_reload_tick stale_file_env loaded_store) = loaded_store"
    using poll_tick_outcome[of stale_file_env loaded_store "[]" 50 good_model] st l by simp
  have 5: "\<lparr>model_data = good_model, model_last_modified = Some 200\<rparr> \<noteq> loaded_store"
    by (simp add: loaded_store_def)
  show ?thesis using 1 2 3 4 5 by simp
qed

section \<open>Properties of the recommend operation\<close>

text \<open>
  C7. While the store holds no model, every request gets the reply
  \<open>Model not loaded\<close> with status 503; a reply that carries recommendations, an empty
  list included, has status 200 and comes from a store that holds a model.
\<close>

theorem model_unavailable:
  "(model_data s = PNone \<longrightarrow>
      recommend environ s request_body =
        Inr (ErrorReply ''Model not loaded''
               (Text ''The recommendation model is not available. Please try again later.''),
             503)) \<and>
   (\<forall>r code. recommend environ s request_body = Inr (Recommendation r, code) \<longrightarrow>
      code = 200 \<and> model_data s \<noteq> PNone)"
  by (auto simp: recommend_def split: body.splits sum.splits bool.splits json.splits if_splits)

text \<open>
  The same request against the empty store and against a loaded store whose rules it does
  not match: 503 against 200 with an empty list.
\<close>

theorem model_unavailable_witness:
  "recommend Map.empty empty_store likes_Q =
     Inr (ErrorReply ''Model not loaded''
            (Text ''The recommendation model is not available. Please try again later.''),
          503) \<and>
   recommend Map.empty loaded_store likes_Q =
     Inr (Recommendation \<lparr>songs = [], version = ''1.0'',
            model_date = MStr ''2024-01-01T12:00:00'', input_songs = [JStr ''Q''],
            num_recommendations = 0\<rparr>, 200)"
proof -
  have e: "model_data empty_store = PNone" by (simp add: empty_store_def)
  have z: "recommend Map.empty loaded_store likes_Q =
     Inr (Recommendation \<lparr>songs = [], version = ''1.0'',
            model_date = MStr ''2024-01-01T12:00:00'', input_songs = [JStr ''Q''],
            num_recommendations = 0\<rparr>, 200)"
    by (simp add: recommend_def loaded_store_def good_model_def likes_Q_def generate_def
        scenario_A_def get_recommendations_def sorted_recommendations_def candidates_def
        sorted_reverse_def slice_to_def SERVER_VERSION_def)
  show ?thesis
    using model_unavailable[of empty_store Map.empty likes_Q] e z by simp
qed

text \<open>
  C8, as stated, fails. With no model in the store, a body that does not parse gets the
  reply \<open>Model not loaded\<close> with status 503, not an invalid-request reply: the store
  is read before the request is.
\<close>

theorem malformed_request_absent_store:
  "recommend Map.empty empty_store Unparseable =
     Inr (ErrorReply ''Model not loaded''
            (Text ''The recommendation model is not available. Please try again later.''),
          503)"
  by (simp add: recommend_def empty_store_def)

text \<open>
  C8, amended. The store is consulted first: when it holds no model every request,
  malformed or not, gets the 503 reply. When it holds a model, a body that does not parse,
  a body that is falsy, a JSON object without the field \<open>songs\<close>, and a JSON object
  whose \<open>songs\<close> is not a list each get a reply with status 400.
\<close>

theorem invalid_request_after_model_check:
  "(model_data s = PNone \<longrightarrow>
      recommend environ s request_body =
        Inr (ErrorReply ''Model not loaded''
               (Text ''The recommendation model is not available. Please try again later.''),
             503)) \<and>
   (model_data s \<noteq> PNone \<longrightarrow>
      recommend environ s Unparseable = Inr (ErrorReply ''Invalid JSON'' (StrOf BadRequest), 400) \<and>
      (\<not> truthy_json data \<longrightarrow>
         (\<exists>m. recommend environ s (Parsed data) =
                Inr (ErrorReply ''Missing required field'' m, 400))) \<and>
      (''songs'' \<notin> fst ` set kvs \<longrightarrow>
         (\<exists>m. recommend environ s (Parsed (JObj kvs)) =
                Inr (ErrorReply ''Missing required field'' m, 400))) \<and>
      (map_of kvs ''songs'' = Some v \<and> (\<forall>xs. v \<noteq> JArr xs) \<longrightarrow>
         (\<exists>m. recommend environ s (Parsed (JObj kvs)) =
                Inr (ErrorReply ''Invalid input'' m, 400))))"
proof -
  have 1: "recommend environ s Unparseable = Inr (ErrorReply ''Invalid JSON'' (StrOf BadRequest), 400)"
    if "model_data s \<noteq> PNone"
    using that by (simp add: recommend_def)
  have 2: "\<exists>m. recommend environ s (Parsed data) = Inr (ErrorReply ''Missing required field'' m, 400)"
    if "model_data s \<noteq> PNone" "\<not> truthy_json data"
    using that by (simp add: recommend_def)
  have 3: "\<exists>m. recommend environ s (Parsed (JObj kvs)) = Inr (ErrorReply ''Missing required field'' m, 400)"
    if "model_data s \<noteq> PNone" "''songs'' \<notin> fst ` set kvs"
    using that by (cases "kvs = []") (simp_all add: recommend_def)
  have 4: "\<exists>m. recommend environ s (Parsed (JObj kvs)) = Inr (ErrorReply ''Invalid input'' m, 400)"
    if "model_data s \<noteq> PNone" "map_of kvs ''songs'' = Some v" "\<forall>xs. v \<noteq> JArr xs"
  proof -
    have "''songs'' \<in> fst ` set kvs" using that(2) by (metis map_of_eq_None_iff option.distinct(1))
    moreover have "kvs \<noteq> []" using that(2) by auto
    ultimately show ?thesis using that by (cases v) (simp_all add: recommend_def)
  qed
  have 0: "model_data s = PNone \<longrightarrow>
      recommend environ s request_body =
        Inr (ErrorReply ''Model not loaded''
               (Text ''The recommendation model is not available. Please try again later.''),
             503)"
    by (simp add: recommend_def)
  show ?thesis using 0 1 2 3 4 by blast
qed

text \<open>
  Four malformed requests against a loaded store.
\<close>

theorem invalid_request_after_model_check_witness:
  "recommend Map.empty loaded_store Unparseable =
     Inr (ErrorReply ''Invalid JSON'' (StrOf BadRequest), 400) \<and>
   (\<exists>m. recommend Map.empty loaded_store (Parsed (JObj [(''tracks'', JArr [])])) =
          Inr (ErrorReply ''Missing required field'' m, 400)) \<and>
   (\<exists>m. recommend Map.empty loaded_store (Parsed (JObj [(''songs'', JStr ''X'')])) =
          Inr (ErrorReply ''Invalid input'' m, 400)) \<and>
   (\<exists>m. recommend Map.empty loaded_store (Parsed JNull) =
          Inr (ErrorReply ''Missing required field'' m, 400))"
proof -
  have l: "model_data loaded_store \<noteq> PNone" by (simp add: loaded_store_def good_model_def)
  show ?thesis
    using invalid_request_after_model_check[of loaded_store Map.empty Unparseable JNull
        "[(''tracks'', JArr [])]" "JStr ''X''"]
      invalid_request_after_model_check[of loaded_store Map.empty Unparseable JNull
        "[(''songs'', JStr ''X'')]" "JStr ''X''"] l
    by simp
qed

text \<open>
  A body that is a JSON number is neither rejected nor served: the test
  \<open>'songs' not in data\<close> raises a TypeError that no \<open>except\<close> of the function
  catches.
\<close>

lemma number_body_raises: "recommend Map.empty loaded_store (Parsed (JNum 5)) = Inl TypeError"
  by (simp add: recommend_def loaded_store_def good_model_def)

section \<open>The lock discipline of the poller\<close>






section \<open>The fields of a successful reply\<close>





end
